theory Spec2Isabelle
  imports Complex_Main "HOL-Library.Sublist"
begin

section \<open>Data model\<close>

text \<open>
  The script \<^verbatim>\<open>meteo_data_analize_script.py\<close> works on pandas tables and series whose index
  is a column of time stamps. A time stamp is modelled as an \<open>int\<close>: the number of seconds
  since 1970-01-01 00:00:00 on the time line the index lives on (UTC for the parsed
  records, naive local time after the normaliser). Five minutes are 300 seconds, an
  hour is 3600 and a day is 86400.

  A series is the list of its (time stamp, value) pairs in row order; a row order is
  part of the data, and duplicated time stamps are possible. The values of a numeric
  series are modelled as real numbers: the arithmetic of the code is carried out
  exactly, the rounding of 64-bit floating point is outside the model. A series of
  type \<open>series\<close> has a number at every time stamp; a series in which samples can be
  missing (NaN) is a \<open>nan_series\<close>, with \<open>None\<close> for NaN.

  Every exception the modelled lines can raise is a value of \<open>py_error\<close>; a function
  that can raise returns \<open>py_error + 'a\<close> with \<open>Inl\<close> for the exception.
\<close>

datatype py_error =
    IndexError
  | ValueError
  | TypeError
  | KeyError
  | JSONDecodeError
  | AmbiguousTime
  | NonExistentTime
  | NotModelled

type_synonym series = "(int \<times> real) list"


section \<open>Interpolator\<close>

subsection \<open>The 5-minute grid of \<^verbatim>\<open>series.resample("5min").asfreq()\<close>\<close>

text \<open>
  \<^verbatim>\<open>resample("5min")\<close> bins the index into 5-minute bins that are closed and labelled on
  the left and anchored at midnight, so the labels run from the smallest time stamp
  rounded down to a multiple of five minutes to the largest one rounded down, in steps of
  five minutes. The resampler sorts the index itself, hence minimum and maximum rather
  than first and last. \<^verbatim>\<open>asfreq()\<close> reindexes the series to these labels, which pandas
  refuses (ValueError) when the index holds a label twice. An empty series gives an
  empty grid.
\<close>

definition floor_5min :: "int \<Rightarrow> int" where
  "floor_5min t = t - t mod 300"

definition grid_5min :: "int \<Rightarrow> int \<Rightarrow> int list" where
  "grid_5min lo hi = map (\<lambda>k. lo + 300 * int k) [0..<nat ((hi - lo) div 300) + 1]"

definition resample_5min_index :: "int list \<Rightarrow> py_error + int list" where
  "resample_5min_index ts =
     (if ts = [] then Inr []
      else if \<not> distinct ts then Inl ValueError
      else Inr (grid_5min (floor_5min (Min (set ts))) (floor_5min (Max (set ts)))))"

subsection \<open>\<^verbatim>\<open>custom_linear_interpolation\<close> (lines 141-150)\<close>

text \<open>
  \<^verbatim>\<open>(e - s) / 12 * np.arange(1, 12, 1) + s\<close>: the eleven values for \<open>k = 1, ..., 11\<close>.
\<close>

definition interpolated_segment :: "real \<Rightarrow> real \<Rightarrow> real list" where
  "interpolated_segment s e = map (\<lambda>k. (e - s) / 12 * real k + s) [1..<12]"

text \<open>
  \<^verbatim>\<open>pd.Series(data, index=index)\<close> pairs the values with the index by position and raises
  ValueError when the two lengths differ.
\<close>

definition pd_Series :: "'a list \<Rightarrow> int list \<Rightarrow> py_error + (int \<times> 'a) list" where
  "pd_Series data idx = (if length data = length idx then Inr (zip idx data) else Inl ValueError)"

text \<open>
  The loop \<^verbatim>\<open>for s, e in zip(series.values[:-1], series.values[1:])\<close> appends the segment
  and the end value to the array built so far.
\<close>

definition interpolation_loop :: "real list \<Rightarrow> (real \<times> real) list \<Rightarrow> real list" where
  "interpolation_loop interpolated_data pairs =
     foldl (\<lambda>acc (s, e). acc @ interpolated_segment s e @ [e]) interpolated_data pairs"

text \<open>
  The function itself. The resampled index is computed first, whatever the interpolation
  type. For the type \<^verbatim>\<open>"linear"\<close>, \<^verbatim>\<open>series.values[0]\<close> raises IndexError on an empty
  series. For any other type the body falls through and Python returns \<^verbatim>\<open>None\<close>,
  the result \<open>Inr None\<close> here.
\<close>

definition custom_linear_interpolation :: "series \<Rightarrow> string \<Rightarrow> py_error + series option" where
  "custom_linear_interpolation series interpolation_type =
     (case resample_5min_index (map fst series) of
        Inl err \<Rightarrow> Inl err
      | Inr resampled_index \<Rightarrow>
          if interpolation_type = ''linear'' then
            (case map snd series of
               [] \<Rightarrow> Inl IndexError
             | v0 # _ \<Rightarrow>
                 (case pd_Series
                         (interpolation_loop [v0]
                            (zip (butlast (map snd series)) (tl (map snd series))))
                         resampled_index of
                    Inl err \<Rightarrow> Inl err
                  | Inr interpolated \<Rightarrow> Inr (Some interpolated)))
          else Inr None)"

text \<open>
  The sequence in the words of the specification: the first value, and for each
  consecutive pair \<open>(s, e)\<close> the eleven values \<open>s + k * (e - s) / 12\<close> for
  \<open>k = 1, ..., 11\<close> followed by \<open>e\<close>.
\<close>

fun spec_values :: "real list \<Rightarrow> real list" where
  "spec_values [] = []"
| "spec_values [v] = [v]"
| "spec_values (s # e # rest) =
     s # map (\<lambda>k. s + real k * (e - s) / 12) [1..<12] @ spec_values (e # rest)"

text \<open>Consecutive time stamps exactly one hour apart.\<close>

fun hourly :: "int list \<Rightarrow> bool" where
  "hourly (a # b # ts) = (b = a + 3600 \<and> hourly (b # ts))"
| "hourly _ = True"

subsection \<open>\<^verbatim>\<open>custom_linear_interpolation\<close> on a series with missing samples\<close>





subsection \<open>\<^verbatim>\<open>built_in_interpolation\<close> (lines 152-156)\<close>






section \<open>Merger (lines 125-126)\<close>

text \<open>
  A table is the list of its rows in row order, each row with its index time stamp; the
  cells of a row are left abstract. \<^verbatim>\<open>pd.concat([historical_weather, forecast_weather],
  axis=0)\<close> puts the rows of the second table after those of the first (a column that
  only one table has is padded with NaN in the rows of the other, which changes no cell
  that was there). \<^verbatim>\<open>index.duplicated(keep="first")\<close> marks every row whose index value
  stands in an earlier row, and \<^verbatim>\<open>.loc[~mask]\<close> keeps the rows that are not marked.
\<close>

definition pd_concat :: "(int \<times> 'row) list \<Rightarrow> (int \<times> 'row) list \<Rightarrow> (int \<times> 'row) list" where
  "pd_concat historical forecast = historical @ forecast"

fun duplicated_after :: "int list \<Rightarrow> int list \<Rightarrow> bool list" where
  "duplicated_after seen [] = []"
| "duplicated_after seen (t # ts) = (t \<in> set seen) # duplicated_after (t # seen) ts"

definition index_duplicated_keep_first :: "int list \<Rightarrow> bool list" where
  "index_duplicated_keep_first idx = duplicated_after [] idx"

definition loc_mask :: "'a list \<Rightarrow> bool list \<Rightarrow> 'a list" where
  "loc_mask rows flags = map fst (filter snd (zip rows flags))"

definition all_weather :: "(int \<times> 'row) list \<Rightarrow> (int \<times> 'row) list \<Rightarrow> (int \<times> 'row) list" where
  "all_weather historical_weather forecast_weather =
     (let concatenated = pd_concat historical_weather forecast_weather
      in loc_mask concatenated (map Not (index_duplicated_keep_first (map fst concatenated))))"

section \<open>Time-series normaliser (lines 45-50 and 58-63)\<close>

text \<open>
  Both loaders turn the parsed UTC index into naive local time:
  \<^verbatim>\<open>.tz_localize("UTC").tz_convert("Europe/Vilnius").tz_localize(None)\<close>, that is, every
  time stamp is moved by the offset from UTC that holds in Vilnius at that instant.

  The offset comes from the time zone database, which is no part of the repository. Its
  present rule for the zone is UTC+2, and UTC+3 from 01:00 UTC on the last Sunday of
  March to 01:00 UTC on the last Sunday of October (\<open>eu_rule_utcoffset\<close>). The calendar
  arithmetic counts days since 1970-01-01 in the proleptic Gregorian calendar;
  \<open>weekday_of_days\<close> is 0 on Monday and 6 on Sunday, as \<^verbatim>\<open>index.weekday\<close> is.
\<close>

definition days_from_civil :: "int \<Rightarrow> int \<Rightarrow> int \<Rightarrow> int" where
  "days_from_civil y m d =
     (let y' = (if m \<le> 2 then y - 1 else y);
          era = y' div 400;
          yoe = y' - era * 400;
          doy = (153 * (if 2 < m then m - 3 else m + 9) + 2) div 5 + d - 1;
          doe = yoe * 365 + yoe div 4 - yoe div 100 + doy
      in era * 146097 + doe - 719468)"

definition year_of_days :: "int \<Rightarrow> int" where
  "year_of_days z0 =
     (let z = z0 + 719468;
          era = z div 146097;
          doe = z - era * 146097;
          yoe = (doe - doe div 1460 + doe div 36524 - doe div 146096) div 365;
          doy = doe - (365 * yoe + yoe div 4 - yoe div 100);
          mp = (5 * doy + 2) div 153
      in yoe + era * 400 + (if mp < 10 then 0 else 1))"

definition weekday_of_days :: "int \<Rightarrow> int" where
  "weekday_of_days d = (d + 3) mod 7"

definition last_sunday :: "int \<Rightarrow> int \<Rightarrow> int" where
  "last_sunday y m = (let d = days_from_civil y m 31 in d - (weekday_of_days d + 1) mod 7)"

definition eu_rule_utcoffset :: "int \<Rightarrow> int" where
  "eu_rule_utcoffset t =
     (let y = year_of_days (t div 86400)
      in if last_sunday y 3 * 86400 + 3600 \<le> t \<and> t < last_sunday y 10 * 86400 + 3600
         then 10800 else 7200)"

text \<open>
  The zone follows this rule from 2003 on; before that its history is another one (no
  summer time from 1999 to 2002, Central European and Moscow time earlier). The rule and
  the database agree from 2002-10-27 01:00:00 UTC, second 1035680400, on. After 2037
  the offset depends on the library that reads the database: one goes on with the
  rule, another ends its table of transitions in October 2037 and stays at UTC+2; the
  two agree until 2038-03-28 01:00:00 UTC, second 2153350800. The offset of an instant
  outside these bounds is not modelled: \<open>None\<close>, and a conversion that needs it gives
  \<open>NotModelled\<close> instead of a result.
\<close>

definition vilnius_utcoffset :: "int \<Rightarrow> int option" where
  "vilnius_utcoffset t =
     (if t < 1035680400 \<or> 2153350800 \<le> t then None else Some (eu_rule_utcoffset t))"

definition normalize_index :: "int list \<Rightarrow> py_error + int list" where
  "normalize_index utc =
     (case those (map vilnius_utcoffset utc) of
        None \<Rightarrow> Inl NotModelled
      | Some offsets \<Rightarrow> Inr (map (\<lambda>(t, off). t + off) (zip utc offsets)))"

text \<open>
  The way back, which the script never takes and the round-trip property speaks of:
  \<^verbatim>\<open>.tz_localize("Europe/Vilnius").tz_convert("UTC")\<close>. pandas refuses a naive local
  time that two instants share (\<open>AmbiguousTime\<close>) and one that no instant has
  (\<open>NonExistentTime\<close>); the class of the exception depends on the version of pandas
  (those of \<^verbatim>\<open>pytz\<close>, or ValueError), so the two errors are named after their cause. With
  the two offsets of the rule the candidate instants are the local time less three
  hours and less two hours.
\<close>

definition tz_localize_vilnius :: "int \<Rightarrow> py_error + int" where
  "tz_localize_vilnius l =
     (case those (map vilnius_utcoffset [l - 10800, l - 7200]) of
        None \<Rightarrow> Inl NotModelled
      | Some offsets \<Rightarrow>
          (case filter (\<lambda>(u, off). u + off = l) (zip [l - 10800, l - 7200] offsets) of
             [] \<Rightarrow> Inl NonExistentTime
           | [(u, off)] \<Rightarrow> Inr u
           | _ \<Rightarrow> Inl AmbiguousTime))"

text \<open>
  An instant lies in the repeated hour when the clocks are set back within the hour
  after it or were set back within the hour before it: its local time of day occurs
  twice that night.
\<close>

definition in_repeated_hour :: "int \<Rightarrow> bool" where
  "in_repeated_hour t \<longleftrightarrow>
     vilnius_utcoffset t = Some 10800 \<and> vilnius_utcoffset (t + 3600) = Some 7200 \<or>
     vilnius_utcoffset t = Some 7200 \<and> vilnius_utcoffset (t - 3600) = Some 10800"

section \<open>Statistics module\<close>

subsection \<open>Day and night (lines 89-98)\<close>

text \<open>
  \<^verbatim>\<open>index.time\<close> is the time of day of each time stamp. \<^verbatim>\<open>day_start\<close> and \<^verbatim>\<open>day_end\<close>
  are the two boolean arrays of lines 89 and 90; the daytime rows are selected by
  \<^verbatim>\<open>day_start & day_end\<close> and the nighttime rows by \<^verbatim>\<open>~day_end | ~day_start\<close>.
\<close>

definition time_of_day :: "int \<Rightarrow> int" where
  "time_of_day t = t mod 86400"

definition day_start :: "int list \<Rightarrow> bool list" where
  "day_start idx = map (\<lambda>t. 8 * 3600 \<le> time_of_day t) idx"

definition day_end :: "int list \<Rightarrow> bool list" where
  "day_end idx = map (\<lambda>t. 20 * 3600 > time_of_day t) idx"

definition daytime_mask :: "int list \<Rightarrow> bool list" where
  "daytime_mask idx = map (\<lambda>(a, b). a \<and> b) (zip (day_start idx) (day_end idx))"

definition nighttime_mask :: "int list \<Rightarrow> bool list" where
  "nighttime_mask idx = map (\<lambda>(a, b). a \<or> b) (zip (map Not (day_end idx)) (map Not (day_start idx)))"

subsection \<open>Rainy weekends (lines 101-122)\<close>

text \<open>
  The column \<^verbatim>\<open>conditionCode\<close> holds strings, \<^verbatim>\<open>None\<close> where the API sent null, and NaN
  where a cell is missing. \<^verbatim>\<open>str(x)\<close> of the latter two is \<^verbatim>\<open>'None'\<close> and \<^verbatim>\<open>'nan'\<close>.
  \<^verbatim>\<open>"rain" in s\<close> is the substring test.
\<close>

datatype condition = Str string | PyNone | NaN

fun py_str :: "condition \<Rightarrow> string" where
  "py_str (Str s) = s"
| "py_str PyNone = ''None''"
| "py_str NaN = ''nan''"

fun py_in :: "string \<Rightarrow> string \<Rightarrow> bool" where
  "py_in needle [] = (needle = [])"
| "py_in needle (c # s) = (prefix needle (c # s) \<or> py_in needle s)"

text \<open>
  \<^verbatim>\<open>index.weekday\<close> and \<^verbatim>\<open>index.date\<close> of a naive local time stamp, the date as a day
  number. The Saturday rows, and the Sunday rows with their index moved back one day.
\<close>

definition weekday :: "int \<Rightarrow> int" where
  "weekday t = weekday_of_days (t div 86400)"

definition date_of :: "int \<Rightarrow> int" where
  "date_of t = t div 86400"

definition saturday_weather :: "(int \<times> condition) list \<Rightarrow> (int \<times> condition) list" where
  "saturday_weather historical_weather = filter (\<lambda>(t, c). weekday t = 5) historical_weather"

definition sunday_weather :: "(int \<times> condition) list \<Rightarrow> (int \<times> condition) list" where
  "sunday_weather historical_weather =
     map (\<lambda>(t, c). (t - 86400, c)) (filter (\<lambda>(t, c). weekday t = 6) historical_weather)"

text \<open>
  \<^verbatim>\<open>pd.merge(..., left_index=True, right_index=True, how="outer")\<close>: the keys are the
  index values of both sides in ascending order; a key of both sides gives one row per
  pair of a left and a right row, a key of one side only gives its rows with NaN for the
  other side.
\<close>

definition merge_rows_for_key ::
  "(int \<times> condition) list \<Rightarrow> (int \<times> condition) list \<Rightarrow> int \<Rightarrow> (int \<times> condition \<times> condition) list" where
  "merge_rows_for_key left right k =
     (let xs = map snd (filter (\<lambda>(t, c). t = k) left);
          ys = map snd (filter (\<lambda>(t, c). t = k) right)
      in if ys = [] then map (\<lambda>x. (k, x, NaN)) xs
         else if xs = [] then map (\<lambda>y. (k, NaN, y)) ys
         else concat (map (\<lambda>x. map (\<lambda>y. (k, x, y)) ys) xs))"

definition pd_merge_outer ::
  "(int \<times> condition) list \<Rightarrow> (int \<times> condition) list \<Rightarrow> (int \<times> condition \<times> condition) list" where
  "pd_merge_outer left right =
     concat (map (merge_rows_for_key left right) (sort (remdups (map fst left @ map fst right))))"

text \<open>
  \<^verbatim>\<open>rainy_sat | rainy_sun\<close>, one flag per merged row; then
  \<^verbatim>\<open>groupby("date").agg(list)\<close>, one list of flags per date in ascending order; then
  \<^verbatim>\<open>.apply(lambda x: True in x).sum()\<close>, the number of dates whose list holds
  \<^verbatim>\<open>True\<close>. \<open>rainy_weekends\<close> are the dates that are counted.
\<close>

definition rainy_combined :: "(int \<times> condition) list \<Rightarrow> (int \<times> bool) list" where
  "rainy_combined historical_weather =
     map (\<lambda>(k, x, y). (k, py_in ''rain'' (py_str x) \<or> py_in ''rain'' (py_str y)))
       (pd_merge_outer (saturday_weather historical_weather) (sunday_weather historical_weather))"

definition groupby_date_agg_list :: "(int \<times> bool) list \<Rightarrow> (int \<times> bool list) list" where
  "groupby_date_agg_list rows =
     map (\<lambda>d. (d, map snd (filter (\<lambda>(k, b). date_of k = d) rows)))
       (sort (remdups (map (\<lambda>(k, b). date_of k) rows)))"

definition rainy_weekends :: "(int \<times> condition) list \<Rightarrow> int list" where
  "rainy_weekends historical_weather =
     map fst (filter (\<lambda>(d, flags). True \<in> set flags)
                (groupby_date_agg_list (rainy_combined historical_weather)))"

definition rainy_weekend_count :: "(int \<times> condition) list \<Rightarrow> nat" where
  "rainy_weekend_count historical_weather = length (rainy_weekends historical_weather)"

section \<open>Data fetcher (lines 22-42 and 55-56)\<close>

text \<open>
  The outcome of \<^verbatim>\<open>req.get\<close> for a URL is given from outside: either the call raises,
  or it returns a response with a status code and a body, \<open>None\<close> when the body is no
  JSON document. What the fetcher prints and which URLs it has requested is threaded
  through as a log. \<^verbatim>\<open>__fetch_data\<close> catches the exception of the call, prints, and falls
  off its end; a status other than 200 is printed the same way. In both cases the
  function returns Python's \<^verbatim>\<open>None\<close>, the result \<open>Inr None\<close> here. An exception of
  \<^verbatim>\<open>response.json()\<close> is raised in the \<^verbatim>\<open>else\<close> branch and is not caught.
\<close>

datatype json = JNull | JBool bool | JNum real | JStr string | JArr "json list"
  | JObj "(string \<times> json) list"

datatype http_outcome = Raises string | Response nat "json option"

datatype printed_line = Error_fetching_data string | Failed_to_fetch_data nat

record io_log =
  printed :: "printed_line list"
  requested :: "string list"

definition fetch_data ::
  "(string \<Rightarrow> http_outcome) \<Rightarrow> string \<Rightarrow> io_log \<Rightarrow> (py_error + json option) \<times> io_log" where
  "fetch_data get url io =
     (let io' = io\<lparr>requested := requested io @ [url]\<rparr>
      in case get url of
           Raises error \<Rightarrow> (Inr None, io'\<lparr>printed := printed io' @ [Error_fetching_data error]\<rparr>)
         | Response status_code body \<Rightarrow>
             if status_code \<noteq> 200
             then (Inr None, io'\<lparr>printed := printed io' @ [Failed_to_fetch_data status_code]\<rparr>)
             else (case body of
                     None \<Rightarrow> (Inl JSONDecodeError, io')
                   | Some j \<Rightarrow> (Inr (Some j), io')))"

text \<open>
  \<^verbatim>\<open>x["key"]\<close> on a parsed JSON value or on \<^verbatim>\<open>None\<close>: an object gives the member (the
  last one of that name) or raises KeyError, everything else raises TypeError.
  \<^verbatim>\<open>weather_records += x\<close> extends the list by the elements of \<open>x\<close>: the items of an
  array, the characters of a string, the keys of an object; any other value is not
  iterable.
\<close>

fun py_getitem :: "json option \<Rightarrow> string \<Rightarrow> py_error + json" where
  "py_getitem (Some (JObj members)) key =
     (case map_of (rev members) key of None \<Rightarrow> Inl KeyError | Some v \<Rightarrow> Inr v)"
| "py_getitem _ key = Inl TypeError"

fun py_iter :: "json \<Rightarrow> py_error + json list" where
  "py_iter (JArr items) = Inr items"
| "py_iter (JStr s) = Inr (map (\<lambda>c. JStr [c]) s)"
| "py_iter (JObj members) = Inr (map JStr (rev (remdups (rev (map fst members)))))"
| "py_iter _ = Inl TypeError"

text \<open>
  The loop of \<^verbatim>\<open>load_historical_data\<close> (lines 36-42), dates as day numbers and
  \<^verbatim>\<open>strftime("%Y-%m-%d")\<close> as a parameter. An exception ends the loop and the load.
  \<open>load_historical_records\<close> gives the records from which line 43 builds the table;
  \<open>load_forecast_records\<close> is lines 55-56.
\<close>

function fetch_days ::
  "(string \<Rightarrow> http_outcome) \<Rightarrow> (int \<Rightarrow> string) \<Rightarrow> string \<Rightarrow> int \<Rightarrow> int \<Rightarrow> json list \<Rightarrow> io_log
     \<Rightarrow> (py_error + json list) \<times> io_log" where
  "fetch_days get strftime historical_url current_date end_date weather_records io =
     (if current_date < end_date then
        (case fetch_data get (historical_url @ ''/'' @ strftime current_date) io of
           (Inl err, io') \<Rightarrow> (Inl err, io')
         | (Inr data, io') \<Rightarrow>
             (case py_getitem data ''observations'' of
                Inl err \<Rightarrow> (Inl err, io')
              | Inr observations \<Rightarrow>
                  (case py_iter observations of
                     Inl err \<Rightarrow> (Inl err, io')
                   | Inr items \<Rightarrow>
                       fetch_days get strftime historical_url (current_date + 1) end_date
                         (weather_records @ items) io')))
      else (Inr weather_records, io))"
  by pat_completeness auto
termination
  by (relation "measure (\<lambda>(get, strftime, historical_url, current_date, end_date, weather_records, io).
        nat (end_date - current_date))") auto

declare fetch_days.simps [simp del]

definition load_historical_records ::
  "(string \<Rightarrow> http_outcome) \<Rightarrow> (int \<Rightarrow> string) \<Rightarrow> string \<Rightarrow> int \<Rightarrow> int
     \<Rightarrow> (py_error + json list) \<times> io_log" where
  "load_historical_records get strftime historical_url start_date end_date =
     fetch_days get strftime historical_url start_date end_date []
       \<lparr>printed = [], requested = []\<rparr>"

definition load_forecast_records ::
  "(string \<Rightarrow> http_outcome) \<Rightarrow> string \<Rightarrow> (py_error + json) \<times> io_log" where
  "load_forecast_records get forecast_url =
     (case fetch_data get forecast_url \<lparr>printed = [], requested = []\<rparr> of
        (Inl err, io') \<Rightarrow> (Inl err, io')
      | (Inr forecast_data, io') \<Rightarrow> (py_getitem forecast_data ''forecastTimestamps'', io'))"

text \<open>A fetch fails when the call raises or the status is not 200.\<close>

definition fetch_fails :: "http_outcome \<Rightarrow> bool" where
  "fetch_fails outcome =
     (case outcome of Raises error \<Rightarrow> True | Response status_code body \<Rightarrow> status_code \<noteq> 200)"

section \<open>Properties of the interpolator\<close>

lemma spec_values_hd: "spec_values (v # vs) = v # tl (spec_values (v # vs))"
  by (cases vs) simp_all

lemma interpolated_segment_spec:
  "interpolated_segment s e = map (\<lambda>k. s + real k * (e - s) / 12) [1..<12]"
  by (simp add: interpolated_segment_def algebra_simps)

lemma interpolation_loop_spec:
  "interpolation_loop acc (zip (butlast (v # vs)) vs) = acc @ tl (spec_values (v # vs))"
proof (induction vs arbitrary: v acc)
  case Nil
  then show ?case by (simp add: interpolation_loop_def)
next
  case (Cons e rest)
  have "interpolation_loop acc (zip (butlast (v # e # rest)) (e # rest))
      = interpolation_loop (acc @ interpolated_segment v e @ [e]) (zip (butlast (e # rest)) rest)"
    by (simp add: interpolation_loop_def)
  also have "\<dots> = (acc @ interpolated_segment v e @ [e]) @ tl (spec_values (e # rest))"
    by (rule Cons.IH)
  also have "\<dots> = acc @ interpolated_segment v e @ spec_values (e # rest)"
    using spec_values_hd [of e rest] by simp
  finally show ?case
    by (simp add: interpolated_segment_spec)
qed

lemma length_spec_values: "vs \<noteq> [] \<Longrightarrow> length (spec_values vs) = 12 * (length vs - 1) + 1"
  by (induction vs rule: spec_values.induct) simp_all

lemma length_grid_5min: "length (grid_5min a b) = nat ((b - a) div 300) + 1"
  by (simp add: grid_5min_def)

lemma floor_5min_dvd: "300 dvd floor_5min t"
  by (simp add: floor_5min_def dvd_eq_mod_eq_0 mod_simps)

lemma floor_5min_mono: "a \<le> b \<Longrightarrow> floor_5min a \<le> floor_5min b"
proof -
  assume "a \<le> b"
  then have "a div 300 \<le> b div 300" by (rule zdiv_mono1) simp
  moreover have "floor_5min t = 300 * (t div 300)" for t
    by (simp add: floor_5min_def minus_mod_eq_mult_div)
  ultimately show ?thesis by simp
qed

lemma floor_5min_shift: "300 dvd d \<Longrightarrow> floor_5min (t + d) = floor_5min t + d"
  by (auto simp: floor_5min_def mod_simps elim!: dvdE)

text \<open>
  What the function does on every non-empty series: it returns a series exactly when
  the index has no duplicate and the grid spans \<open>n - 1\<close> hours, and then the values are
  the specification's sequence laid over the grid.
\<close>

lemma custom_linear_interpolation_linear:
  assumes "series \<noteq> []"
  shows "custom_linear_interpolation series ''linear'' =
     (if distinct (map fst series) \<and>
         floor_5min (Max (set (map fst series))) - floor_5min (Min (set (map fst series)))
           = 3600 * (int (length series) - 1)
      then Inr (Some (zip (grid_5min (floor_5min (Min (set (map fst series))))
                                     (floor_5min (Max (set (map fst series)))))
                          (spec_values (map snd series))))
      else Inl ValueError)"
proof -
  obtain p rest where series: "series = p # rest"
    using assms by (cases series) auto
  define ts where "ts = map fst series"
  define lo where "lo = floor_5min (Min (set ts))"
  define hi where "hi = floor_5min (Max (set ts))"
  have ts_ne: "ts \<noteq> []" using assms by (simp add: ts_def)
  have "Min (set ts) \<le> Max (set ts)"
    using ts_ne by (simp add: Min_le_iff)
  then have le: "lo \<le> hi"
    unfolding lo_def hi_def by (rule floor_5min_mono)
  have "300 dvd hi - lo"
    unfolding lo_def hi_def by (intro dvd_diff floor_5min_dvd)
  then obtain q where q: "hi - lo = 300 * q" by (elim dvdE)
  with le have q0: "0 \<le> q" by simp
  have data: "interpolation_loop [snd p] (zip (butlast (map snd series)) (tl (map snd series)))
      = spec_values (map snd series)"
    using interpolation_loop_spec [of "[snd p]" "snd p" "map snd rest"]
          spec_values_hd [of "snd p" "map snd rest"]
    by (simp add: series)
  have len_data: "length (spec_values (map snd series)) = 12 * (length series - 1) + 1"
    using assms by (simp add: length_spec_values)
  have len_grid: "length (grid_5min lo hi) = nat q + 1"
    by (simp add: length_grid_5min q)
  have same: "length (spec_values (map snd series)) = length (grid_5min lo hi)
      \<longleftrightarrow> hi - lo = 3600 * (int (length series) - 1)"
  proof -
    have "length series = Suc (length rest)" by (simp add: series)
    then have "length (spec_values (map snd series)) = 12 * length rest + 1"
      and "int (length series) - 1 = int (length rest)"
      using len_data by simp_all
    then show ?thesis
      using q0 by (auto simp: len_grid q)
  qed
  show ?thesis
  proof (cases "distinct ts")
    case False
    then show ?thesis
      using ts_ne by (simp add: custom_linear_interpolation_def resample_5min_index_def ts_def)
  next
    case True
    have "custom_linear_interpolation series ''linear'' =
        (case pd_Series (spec_values (map snd series)) (grid_5min lo hi) of
           Inl err \<Rightarrow> Inl err | Inr interpolated \<Rightarrow> Inr (Some interpolated))"
      using True ts_ne data
      by (simp add: custom_linear_interpolation_def resample_5min_index_def ts_def lo_def hi_def
          series)
    then show ?thesis
      using True same by (simp add: pd_Series_def ts_def lo_def hi_def)
  qed
qed

subsection \<open>Strictly increasing and hourly time stamps\<close>

lemma strict_sorted_Min: "sorted_wrt (<) ts \<Longrightarrow> ts \<noteq> [] \<Longrightarrow> Min (set ts) = hd (ts::int list)"
  by (cases ts) (auto intro!: Min_eqI simp: less_imp_le)

lemma strict_sorted_Max: "sorted_wrt (<) ts \<Longrightarrow> ts \<noteq> [] \<Longrightarrow> Max (set ts) = last (ts::int list)"
proof (induction ts)
  case Nil
  then show ?case by simp
next
  case (Cons a ts)
  show ?case
  proof (cases ts)
    case Nil
    then show ?thesis by simp
  next
    case (Cons b us)
    then have "Max (set ts) = last ts" using Cons.IH Cons.prems by simp
    moreover have "a < last ts" using Cons.prems Cons by auto
    ultimately show ?thesis using Cons by (simp add: max_def)
  qed
qed

lemma strict_sorted_distinct: "sorted_wrt (<) ts \<Longrightarrow> distinct (ts::int list)"
  by (simp add: strict_sorted_iff [symmetric] sorted_wrt_iff_nth_less distinct_conv_nth)
   (metis less_irrefl linorder_neqE_nat)

lemma hourly_nth: "hourly ts \<Longrightarrow> i < length ts \<Longrightarrow> ts ! i = hd ts + 3600 * int i"
proof (induction ts arbitrary: i rule: hourly.induct)
  case (1 a b ts)
  then show ?case by (cases i) (auto simp: algebra_simps)
qed simp_all

lemma hourly_sorted: "hourly ts \<Longrightarrow> sorted_wrt (<) ts"
  by (simp add: sorted_wrt_iff_nth_less hourly_nth)

lemma spec_values_step:
  "spec_values (s # e # rest) = (s # map (\<lambda>k. s + real k * (e - s) / 12) [1..<12]) @ spec_values (e # rest)"
  by simp

lemma spec_values_nth_sample: "i < length vs \<Longrightarrow> spec_values vs ! (12 * i) = vs ! i"
proof (induction vs arbitrary: i rule: spec_values.induct)
  case 1
  then show ?case by simp
next
  case (2 v)
  then show ?case by simp
next
  case (3 s e rest)
  show ?case
  proof (cases i)
    case 0
    then show ?thesis by simp
  next
    case (Suc j)
    have "spec_values (s # e # rest) ! (12 + 12 * j) = spec_values (e # rest) ! (12 * j)"
      unfolding spec_values_step
      using nth_append_length_plus [of "s # map (\<lambda>k. s + real k * (e - s) / 12) [1..<12]" "spec_values (e # rest)" "12 * j"]
      by simp
    then show ?thesis using 3 Suc by simp
  qed
qed

lemma spec_values_nth_next:
  "Suc i < length vs \<Longrightarrow> spec_values vs ! (12 * i + 1) = vs ! i + (vs ! Suc i - vs ! i) / 12"
proof (induction vs arbitrary: i rule: spec_values.induct)
  case 1
  then show ?case by simp
next
  case (2 v)
  then show ?case by simp
next
  case (3 s e rest)
  show ?case
  proof (cases i)
    case 0
    then show ?thesis by (simp add: upt_conv_Cons)
  next
    case (Suc j)
    have "spec_values (s # e # rest) ! (12 + (12 * j + 1)) = spec_values (e # rest) ! (12 * j + 1)"
      unfolding spec_values_step
      using nth_append_length_plus [of "s # map (\<lambda>k. s + real k * (e - s) / 12) [1..<12]" "spec_values (e # rest)" "12 * j + 1"]
      by simp
    then show ?thesis using 3 Suc by (simp add: add.assoc)
  qed
qed

lemma grid_5min_nth: "k < length (grid_5min a b) \<Longrightarrow> grid_5min a b ! k = a + 300 * int k"
  unfolding grid_5min_def by (simp del: upt_Suc)

lemma grid_5min_distinct: "distinct (grid_5min a b)"
  unfolding grid_5min_def by (simp add: distinct_map inj_on_def del: upt_Suc)

lemma custom_linear_interpolation_sorted:
  assumes "series \<noteq> []" and "sorted_wrt (<) (map fst series)"
  shows "custom_linear_interpolation series ''linear'' =
     (if floor_5min (fst (last series)) - floor_5min (fst (hd series))
           = 3600 * (int (length series) - 1)
      then Inr (Some (zip (grid_5min (floor_5min (fst (hd series))) (floor_5min (fst (last series))))
                          (spec_values (map snd series))))
      else Inl ValueError)"
proof -
  have "Min (set (map fst series)) = fst (hd series)"
    using assms strict_sorted_Min [of "map fst series"] by (simp add: hd_map)
  moreover have "Max (set (map fst series)) = fst (last series)"
    using assms strict_sorted_Max [of "map fst series"] by (simp add: last_map)
  moreover have "distinct (map fst series)"
    using assms(2) by (rule strict_sorted_distinct)
  ultimately show ?thesis
    using custom_linear_interpolation_linear [OF assms(1)] by simp
qed

lemma zip_grid_values:
  assumes "hi - lo = 3600 * (int (length vs) - 1)" and "vs \<noteq> []"
  defines "r \<equiv> zip (grid_5min lo hi) (spec_values vs)"
  shows "length r = 12 * (length vs - 1) + 1"
    and "map fst r = grid_5min lo hi"
    and "map snd r = spec_values vs"
    and "distinct (map fst r)"
    and "k < length r \<Longrightarrow> r ! k = (lo + 300 * int k, spec_values vs ! k)"
proof -
  obtain m where m: "length vs = Suc m" using assms(2) by (cases vs) auto
  have lg: "length (grid_5min lo hi) = 12 * m + 1"
    using assms(1) by (simp add: length_grid_5min m)
  have lv: "length (spec_values vs) = 12 * m + 1"
    using assms(2) by (simp add: length_spec_values m)
  show "length r = 12 * (length vs - 1) + 1" by (simp add: r_def lg lv m)
  show fst: "map fst r = grid_5min lo hi" by (simp add: r_def lg lv)
  show "map snd r = spec_values vs" by (simp add: r_def lg lv)
  show "distinct (map fst r)" by (simp add: fst grid_5min_distinct)
  show "r ! k = (lo + 300 * int k, spec_values vs ! k)" if "k < length r"
    using that by (simp add: r_def grid_5min_nth)
qed


subsection \<open>Hourly input\<close>

text \<open>
  Claim C1, as amended. For every input series of at least 2 points with exactly hourly
  spacing, \<^verbatim>\<open>custom_linear_interpolation\<close> with the type \<^verbatim>\<open>"linear"\<close> returns a series
  \<open>r\<close> whose values are the sequence of the specification (the first input value and,
  for each consecutive pair \<open>(s, e)\<close>, the eleven values \<open>s + k * (e - s) / 12\<close> followed by
  \<open>e\<close>), laid over the 5-minute grid that starts at the first time stamp rounded down
  to five minutes. The value one grid step after the grid label of a sample \<open>v0\<close>
  followed by \<open>v1\<close> is \<open>v0 + (v1 - v0) / 12\<close>; the value at the grid label of each
  sample, its time stamp rounded down to five minutes, is that sample exactly; and
  where a sample's time stamp is a multiple of five minutes the value at that very time
  stamp is the sample.
\<close>

theorem custom_linear_interpolation_hourly:
  assumes "2 \<le> length series" and "hourly (map fst series)"
  shows "\<exists>r. custom_linear_interpolation series ''linear'' = Inr (Some r) \<and>
      map snd r = spec_values (map snd series) \<and>
      map fst r = map (\<lambda>k. floor_5min (fst (hd series)) + 300 * int k)
                      [0..<12 * (length series - 1) + 1] \<and>
      (\<forall>i. Suc i < length series \<longrightarrow>
         r ! (12 * i + 1) = (floor_5min (fst (series ! i)) + 300,
            snd (series ! i) + (snd (series ! Suc i) - snd (series ! i)) / 12) \<and>
         map_of r (floor_5min (fst (series ! i)) + 300)
           = Some (snd (series ! i) + (snd (series ! Suc i) - snd (series ! i)) / 12)) \<and>
      (\<forall>i<length series.
         r ! (12 * i) = (floor_5min (fst (series ! i)), snd (series ! i)) \<and>
         map_of r (floor_5min (fst (series ! i))) = Some (snd (series ! i)) \<and>
         (300 dvd fst (series ! i) \<longrightarrow> map_of r (fst (series ! i)) = Some (snd (series ! i))))"
proof -
  have ne: "series \<noteq> []" using assms(1) by auto
  define lo where "lo = floor_5min (fst (hd series))"
  define hi where "hi = floor_5min (fst (last series))"
  define vs where "vs = map snd series"
  define r where "r = zip (grid_5min lo hi) (spec_values vs)"
  have sorted: "sorted_wrt (<) (map fst series)"
    using assms(2) by (rule hourly_sorted)
  have ts: "fst (series ! i) = fst (hd series) + 3600 * int i" if "i < length series" for i
    using hourly_nth [OF assms(2), of i] that ne by (simp add: hd_map)
  have fl: "floor_5min (fst (series ! i)) = lo + 3600 * int i" if "i < length series" for i
    using ts [OF that] floor_5min_shift [of "3600 * int i" "fst (hd series)"]
    by (simp add: lo_def)
  have "last series = series ! (length series - 1)"
    using ne by (simp add: last_conv_nth)
  then have span: "hi - lo = 3600 * (int (length vs) - 1)"
    using fl [of "length series - 1"] ne
    by (simp add: hi_def vs_def of_nat_diff Suc_leI)
  have vne: "vs \<noteq> []" using ne by (simp add: vs_def)
  note z = zip_grid_values [OF span vne, folded r_def]
  have res: "custom_linear_interpolation series ''linear'' = Inr (Some r)"
    using custom_linear_interpolation_sorted [OF ne sorted] span
    by (simp add: r_def lo_def hi_def vs_def)
  have grid: "map fst r = map (\<lambda>k. lo + 300 * int k) [0..<12 * (length series - 1) + 1]"
  proof -
    have "nat ((hi - lo) div 300) = 12 * (length series - 1)"
      using span ne by (simp add: vs_def nat_mult_distrib of_nat_diff Suc_leI)
    then show ?thesis
      using z(2) unfolding grid_5min_def by simp
  qed
  have at: "(t, v) \<in> set r \<longleftrightarrow> map_of r t = Some v" for t v
    using z(4) by simp
  have s1: "r ! (12 * i) = (floor_5min (fst (series ! i)), snd (series ! i))"
    if "i < length series" for i
  proof -
    have k: "12 * i < length r" using that z(1) by (simp add: vs_def)
    show ?thesis
      using z(5) [OF k] spec_values_nth_sample [of i vs] that fl [OF that]
      by (simp add: vs_def)
  qed
  have s2: "map_of r (floor_5min (fst (series ! i))) = Some (snd (series ! i))"
    if "i < length series" for i
  proof -
    have k: "12 * i < length r" using that z(1) by (simp add: vs_def)
    have "r ! (12 * i) \<in> set r" using k by (rule nth_mem)
    then show ?thesis unfolding s1 [OF that] by (simp only: at)
  qed
  have s3: "map_of r (fst (series ! i)) = Some (snd (series ! i))"
    if "i < length series" and "300 dvd fst (series ! i)" for i
  proof -
    have "floor_5min (fst (series ! i)) = fst (series ! i)"
      using that(2) by (simp add: floor_5min_def)
    then show ?thesis using s2 [OF that(1)] by simp
  qed
  have t1: "r ! (12 * i + 1) = (floor_5min (fst (series ! i)) + 300,
            snd (series ! i) + (snd (series ! Suc i) - snd (series ! i)) / 12)"
    if "Suc i < length series" for i
  proof -
    have i: "i < length series" using that by simp
    have k: "12 * i + 1 < length r" using that z(1) by (simp add: vs_def)
    show ?thesis
      using z(5) [OF k] spec_values_nth_next [of i vs] that fl [OF i]
      by (simp add: vs_def)
  qed
  have t2: "map_of r (floor_5min (fst (series ! i)) + 300)
           = Some (snd (series ! i) + (snd (series ! Suc i) - snd (series ! i)) / 12)"
    if "Suc i < length series" for i
  proof -
    have k: "12 * i + 1 < length r" using that z(1) by (simp add: vs_def)
    have "r ! (12 * i + 1) \<in> set r" using k by (rule nth_mem)
    then show ?thesis unfolding t1 [OF that] by (simp only: at)
  qed
  have vals: "map snd r = spec_values (map snd series)"
    using z(3) by (simp only: vs_def)
  have grid': "map fst r = map (\<lambda>k. floor_5min (fst (hd series)) + 300 * int k)
                      [0..<12 * (length series - 1) + 1]"
    using grid by (simp only: lo_def)
  show ?thesis
    by (rule exI [of _ r], intro conjI allI impI)
       (simp_all only: res vals grid' s1 s2 s3 t1 t2)
qed

theorem custom_linear_interpolation_hourly_witness:
  "\<exists>r. custom_linear_interpolation [(3600, 1), (7200, 4), (10800, 2)] ''linear'' = Inr (Some r) \<and>
       map snd r = spec_values [1, 4, 2] \<and>
       r ! 1 = (3900, 5 / 4) \<and> r ! 12 = (7200, 4) \<and> map_of r 10800 = Some 2"
proof -
  let ?S = "[(3600, 1), (7200, 4), (10800, 2)] :: series"
  have h1: "2 \<le> length ?S" by simp
  have h2: "hourly (map fst ?S)" by simp
  from custom_linear_interpolation_hourly [OF h1 h2] obtain r where
    res: "custom_linear_interpolation ?S ''linear'' = Inr (Some r)" and
    vals: "map snd r = spec_values (map snd ?S)" and
    step: "\<And>i. Suc i < length ?S \<Longrightarrow>
         r ! (12 * i + 1) = (floor_5min (fst (?S ! i)) + 300,
            snd (?S ! i) + (snd (?S ! Suc i) - snd (?S ! i)) / 12)" and
    sample: "\<And>i. i < length ?S \<Longrightarrow>
         r ! (12 * i) = (floor_5min (fst (?S ! i)), snd (?S ! i)) \<and>
         (300 dvd fst (?S ! i) \<longrightarrow> map_of r (fst (?S ! i)) = Some (snd (?S ! i)))"
    by blast
  have "r ! 1 = (3900, 5 / 4)"
    using step [of 0] by (simp add: floor_5min_def)
  moreover have "r ! 12 = (7200, 4)"
    using sample [of 1] by (simp add: floor_5min_def)
  moreover have "map_of r 10800 = Some 2"
    using sample [of 2] by simp
  ultimately show ?thesis using res vals by simp
qed

text \<open>
  The claim as stated speaks of the value at each original sample's time stamp for
  every hourly series. It is false for the series with the value 1 at 00:03:00 (180
  seconds) and the value 2 at 01:03:00 (3780 seconds): the result is indexed by the
  grid from 00:00:00 to 01:00:00 and has no entry at 01:03:00.
\<close>

theorem custom_linear_interpolation_unaligned_timestamps:
  "custom_linear_interpolation [(180, 1), (3780, 2)] ''linear'' =
     Inr (Some [(0, 1), (300, 13 / 12), (600, 7 / 6), (900, 5 / 4), (1200, 4 / 3),
                (1500, 17 / 12), (1800, 3 / 2), (2100, 19 / 12), (2400, 5 / 3),
                (2700, 7 / 4), (3000, 11 / 6), (3300, 23 / 12), (3600, 2)]) \<and>
   map_of [(0, 1), (300, 13 / 12), (600, 7 / 6), (900, 5 / 4), (1200, 4 / 3),
           (1500, 17 / 12), (1800, 3 / 2), (2100, 19 / 12), (2400, 5 / 3),
           (2700, 7 / 4), (3000, 11 / 6), (3300, 23 / 12), (3600, 2::real)] (3780::int) = None"
  by (simp add: custom_linear_interpolation_def resample_5min_index_def grid_5min_def
      interpolation_loop_def pd_Series_def floor_5min_def interpolated_segment_def
      upt_conv_Cons)

subsection \<open>Fewer than two points\<close>

text \<open>
  Claim C2, as amended. On the empty series \<^verbatim>\<open>custom_linear_interpolation\<close> with the
  type \<^verbatim>\<open>"linear"\<close> fails: \<^verbatim>\<open>series.values[0]\<close> raises IndexError. On a series of
  exactly one point it does not fail: the loop body never runs, and the function returns
  the one-point series that holds the value at the point's time stamp rounded down to
  the 5-minute grid.
\<close>

theorem custom_linear_interpolation_fewer_than_two:
  "custom_linear_interpolation [] ''linear'' = Inl IndexError \<and>
   custom_linear_interpolation [(t, v)] ''linear'' = Inr (Some [(floor_5min t, v)])"
  by (simp add: custom_linear_interpolation_def resample_5min_index_def grid_5min_def
      interpolation_loop_def pd_Series_def)

text \<open>
  The claim as stated (fewer than two points always fail) is false for the one-point
  series that holds the value 5 at time 0: the function returns that series.
\<close>

theorem custom_linear_interpolation_one_point_returns:
  "custom_linear_interpolation [(0, 5)] ''linear'' = Inr (Some [(0, 5)])"
  by (simp add: custom_linear_interpolation_def resample_5min_index_def grid_5min_def
      interpolation_loop_def pd_Series_def floor_5min_def)

subsection \<open>Spacing other than one hour\<close>

text \<open>
  Claim C3, as amended. For every input series of at least 2 points with strictly
  increasing time stamps, whatever their spacing: when the first and the last time
  stamp, rounded down to five minutes, are exactly \<open>n - 1\<close> hours apart (\<open>n\<close> the number
  of points), \<^verbatim>\<open>custom_linear_interpolation\<close> with the type \<^verbatim>\<open>"linear"\<close> returns a series
  that pairs the fixed 12-step values with the grid of real elapsed time, so that
  sample \<open>i\<close> sits at the grid label \<open>i\<close> hours after the first one, whatever its own
  time stamp; otherwise the values and the index differ in length and the construction of
  the result raises ValueError.
\<close>

theorem custom_linear_interpolation_any_spacing:
  assumes "2 \<le> length series" and "sorted_wrt (<) (map fst series)"
  shows "if floor_5min (fst (last series)) - floor_5min (fst (hd series))
             = 3600 * (int (length series) - 1)
         then \<exists>r. custom_linear_interpolation series ''linear'' = Inr (Some r) \<and>
                map snd r = spec_values (map snd series) \<and>
                map fst r = grid_5min (floor_5min (fst (hd series))) (floor_5min (fst (last series))) \<and>
                (\<forall>i<length series.
                   r ! (12 * i) = (floor_5min (fst (hd series)) + 3600 * int i, snd (series ! i)))
         else custom_linear_interpolation series ''linear'' = Inl ValueError"
proof (cases "floor_5min (fst (last series)) - floor_5min (fst (hd series))
             = 3600 * (int (length series) - 1)")
  case False
  have "series \<noteq> []" using assms(1) by auto
  then show ?thesis
    using custom_linear_interpolation_sorted [of series] assms(2) False by simp
next
  case True
  have ne: "series \<noteq> []" using assms(1) by auto
  define r where "r = zip (grid_5min (floor_5min (fst (hd series))) (floor_5min (fst (last series))))
                          (spec_values (map snd series))"
  have res: "custom_linear_interpolation series ''linear'' = Inr (Some r)"
    using custom_linear_interpolation_sorted [OF ne assms(2)] True by (simp add: r_def)
  have span: "floor_5min (fst (last series)) - floor_5min (fst (hd series))
      = 3600 * (int (length (map snd series)) - 1)"
    using True by simp
  have vne: "map snd series \<noteq> []" using ne by simp
  note z = zip_grid_values [OF span vne, folded r_def]
  have "r ! (12 * i) = (floor_5min (fst (hd series)) + 3600 * int i, snd (series ! i))"
    if "i < length series" for i
  proof -
    have "12 * i < length r" using that z(1) by simp
    then show ?thesis
      using z(5) [of "12 * i"] spec_values_nth_sample [of i "map snd series"] that by simp
  qed
  then show ?thesis
    using True res z(2,3) by auto
qed


theorem custom_linear_interpolation_any_spacing_witness:
  "(\<exists>r. custom_linear_interpolation [(0, 1), (1800, 2), (7200, 4)] ''linear'' = Inr (Some r) \<and>
        r ! 12 = (3600, 2)) \<and>
   custom_linear_interpolation [(0, 1), (1800, 2)] ''linear'' = Inl ValueError"
proof -
  let ?A = "[(0, 1), (1800, 2), (7200, 4)] :: series"
  let ?B = "[(0, 1), (1800, 2)] :: series"
  have a1: "2 \<le> length ?A" and a2: "sorted_wrt (<) (map fst ?A)" by simp_all
  have a3: "floor_5min (fst (last ?A)) - floor_5min (fst (hd ?A)) = 3600 * (int (length ?A) - 1)"
    by (simp add: floor_5min_def)
  from custom_linear_interpolation_any_spacing [OF a1 a2, unfolded if_P [OF a3]] obtain r where
    "custom_linear_interpolation ?A ''linear'' = Inr (Some r)" and
    "\<forall>i<length ?A. r ! (12 * i) = (floor_5min (fst (hd ?A)) + 3600 * int i, snd (?A ! i))"
    by blast
  moreover from this(2) [rule_format, of 1] have "r ! (12 * 1) = (3600, 2)"
    by (simp add: floor_5min_def)
  ultimately have first: "\<exists>r. custom_linear_interpolation ?A ''linear'' = Inr (Some r) \<and>
        r ! 12 = (3600, 2)"
    by simp
  have b1: "2 \<le> length ?B" and b2: "sorted_wrt (<) (map fst ?B)" by simp_all
  have b3: "floor_5min (fst (last ?B)) - floor_5min (fst (hd ?B)) \<noteq> 3600 * (int (length ?B) - 1)"
    by (simp add: floor_5min_def)
  from custom_linear_interpolation_any_spacing [OF b1 b2, unfolded if_not_P [OF b3]]
  have "custom_linear_interpolation ?B ''linear'' = Inl ValueError" .
  with first show ?thesis by simp
qed

text \<open>
  The claim as stated (a series is still returned for every spacing other than one
  hour) is false for the two points \<open>(0, 1)\<close> and \<open>(7200, 2)\<close>, two hours apart: 13
  values meet an index of 25 labels and \<^verbatim>\<open>pd.Series\<close> raises ValueError.
\<close>

theorem custom_linear_interpolation_two_hours_apart:
  "custom_linear_interpolation [(0, 1), (7200, 2)] ''linear'' = Inl ValueError"
  by (simp add: custom_linear_interpolation_def resample_5min_index_def grid_5min_def
      interpolation_loop_def pd_Series_def floor_5min_def interpolated_segment_def)

subsection \<open>An interpolation type other than linear\<close>

text \<open>
  Claim C10, as amended. For every input series whose time stamps are pairwise distinct
  and every interpolation type other than \<^verbatim>\<open>"linear"\<close>, \<^verbatim>\<open>custom_linear_interpolation\<close>
  returns \<^verbatim>\<open>None\<close> and raises nothing. The resample of line 142 runs before the type
  is looked at, so a series with a repeated time stamp raises ValueError there,
  whatever the type.
\<close>

theorem custom_linear_interpolation_other_type:
  "interpolation_type \<noteq> ''linear'' \<Longrightarrow>
   custom_linear_interpolation series interpolation_type =
     (if distinct (map fst series) then Inr None else Inl ValueError)"
  by (cases series) (auto simp add: custom_linear_interpolation_def resample_5min_index_def)

theorem custom_linear_interpolation_other_type_witness:
  "custom_linear_interpolation [(0, 1), (3600, 2)] ''cubic'' = Inr None"
  using custom_linear_interpolation_other_type [of "''cubic''" "[(0, 1), (3600, 2)]"] by simp

text \<open>
  The claim as stated (every input series) is false for the series with the two rows
  \<open>(0, 1)\<close> and \<open>(0, 2)\<close> and the type \<^verbatim>\<open>"cubic"\<close>: the call raises ValueError.
\<close>

theorem custom_linear_interpolation_other_type_raises:
  "custom_linear_interpolation [(0, 1), (0, 2)] ''cubic'' = Inl ValueError"
  by (simp add: custom_linear_interpolation_def resample_5min_index_def)

section \<open>The library interpolation against the custom one\<close>




















section \<open>Properties of the merger\<close>

lemma loc_mask_Cons: "loc_mask (x # xs) (b # bs) = (if b then x # loc_mask xs bs else loc_mask xs bs)"
  by (simp add: loc_mask_def)

lemma drop_duplicates_fst:
  "set (map fst (loc_mask rows (map Not (duplicated_after seen (map fst rows)))))
     = set (map fst rows) - set seen"
  by (induction rows arbitrary: seen) (auto simp: loc_mask_Cons loc_mask_def)

lemma drop_duplicates_distinct:
  "distinct (map fst (loc_mask rows (map Not (duplicated_after seen (map fst rows)))))"
proof (induction rows arbitrary: seen)
  case Nil
  then show ?case by (simp add: loc_mask_def)
next
  case (Cons r rows)
  have "fst r \<notin> set (map fst (loc_mask rows (map Not (duplicated_after (fst r # seen) (map fst rows)))))"
    unfolding drop_duplicates_fst by simp
  then show ?case
    using Cons.IH [of "fst r # seen"] by (simp add: loc_mask_Cons)
qed

lemma drop_duplicates_map_of:
  "t \<notin> set seen \<Longrightarrow>
   map_of (loc_mask rows (map Not (duplicated_after seen (map fst rows)))) t = map_of rows t"
proof (induction rows arbitrary: seen)
  case Nil
  then show ?case by (simp add: loc_mask_def)
next
  case (Cons r rows)
  obtain k v where r: "r = (k, v)" by (cases r)
  show ?case
  proof (cases "t = k")
    case True
    then show ?thesis using Cons.prems by (simp add: loc_mask_Cons r)
  next
    case False
    then have "t \<notin> set (k # seen)" using Cons.prems by simp
    from Cons.IH [OF this] show ?thesis using False by (simp add: loc_mask_Cons r)
  qed
qed

text \<open>
  Claim C5. For every primary (historical) table and secondary (forecast) table, the
  index of the merged table is the union of the two indices and holds no time stamp
  twice, and the row at any time stamp of the primary table, so at any time stamp
  present in both, is the primary table's row (its first one at that time stamp); at
  any other time stamp it is the secondary table's row.
\<close>

theorem all_weather_first_wins:
  "set (map fst (all_weather historical_weather forecast_weather))
       = set (map fst historical_weather) \<union> set (map fst forecast_weather) \<and>
   distinct (map fst (all_weather historical_weather forecast_weather)) \<and>
   (\<forall>t\<in>set (map fst historical_weather).
      map_of (all_weather historical_weather forecast_weather) t = map_of historical_weather t) \<and>
   (\<forall>t. t \<notin> set (map fst historical_weather) \<longrightarrow>
      map_of (all_weather historical_weather forecast_weather) t = map_of forecast_weather t)"
proof -
  have m: "map_of (all_weather historical_weather forecast_weather) t
      = map_of (historical_weather @ forecast_weather) t" for t
    using drop_duplicates_map_of [of t "[]" "historical_weather @ forecast_weather"]
    by (simp add: all_weather_def pd_concat_def index_duplicated_keep_first_def)
  have "map_of (historical_weather @ forecast_weather) t = map_of historical_weather t"
    if "t \<in> set (map fst historical_weather)" for t
  proof -
    from that obtain v where "map_of historical_weather t = Some v"
      by (metis map_of_eq_None_iff not_Some_eq set_map)
    then show ?thesis by (simp add: map_add_def)
  qed
  moreover have "map_of (historical_weather @ forecast_weather) t = map_of forecast_weather t"
    if "t \<notin> set (map fst historical_weather)" for t
  proof -
    from that have "map_of historical_weather t = None"
      by (simp add: map_of_eq_None_iff)
    then show ?thesis by (simp add: map_add_def)
  qed
  moreover have "set (map fst (all_weather historical_weather forecast_weather))
       = set (map fst historical_weather) \<union> set (map fst forecast_weather)"
    using drop_duplicates_fst [of "historical_weather @ forecast_weather" "[]"]
    by (simp add: all_weather_def pd_concat_def index_duplicated_keep_first_def)
  moreover have "distinct (map fst (all_weather historical_weather forecast_weather))"
    using drop_duplicates_distinct [of "historical_weather @ forecast_weather" "[]"]
    by (simp add: all_weather_def pd_concat_def index_duplicated_keep_first_def)
  ultimately show ?thesis by (simp add: m)
qed

theorem all_weather_first_wins_witness:
  "map_of (all_weather [(3600, ''historical''), (7200, ''h2'')] [(7200, ''forecast''), (10800, ''f3'')]) 7200
     = Some ''h2'' \<and>
   map_of (all_weather [(3600, ''historical''), (7200, ''h2'')] [(7200, ''forecast''), (10800, ''f3'')]) 10800
     = Some ''f3'' \<and>
   all_weather [(3600, ''historical''), (7200, ''h2'')] [(7200, ''forecast''), (10800, ''f3'')]
     = [(3600, ''historical''), (7200, ''h2''), (10800, ''f3'')]"
proof -
  let ?h = "[(3600, ''historical''), (7200, ''h2'')] :: (int \<times> string) list"
  let ?f = "[(7200, ''forecast''), (10800, ''f3'')] :: (int \<times> string) list"
  have "\<forall>t\<in>set (map fst ?h). map_of (all_weather ?h ?f) t = map_of ?h t"
    and "\<forall>t. t \<notin> set (map fst ?h) \<longrightarrow> map_of (all_weather ?h ?f) t = map_of ?f t"
    using all_weather_first_wins [of ?h ?f] by blast+
  then have "map_of (all_weather ?h ?f) 7200 = Some ''h2''"
    and "map_of (all_weather ?h ?f) 10800 = Some ''f3''"
    by simp_all
  moreover have "all_weather ?h ?f = [(3600, ''historical''), (7200, ''h2''), (10800, ''f3'')]"
    by (simp add: all_weather_def pd_concat_def index_duplicated_keep_first_def loc_mask_def)
  ultimately show ?thesis by simp
qed

section \<open>Properties of the normaliser\<close>

lemma eu_rule_utcoffset_cases: "eu_rule_utcoffset t = 7200 \<or> eu_rule_utcoffset t = 10800"
  by (simp add: eu_rule_utcoffset_def Let_def)

lemma vilnius_utcoffset_modelled:
  "1035680400 \<le> t \<Longrightarrow> t < 2153350800 \<Longrightarrow>
   vilnius_utcoffset t = Some (eu_rule_utcoffset t)"
  by (simp add: vilnius_utcoffset_def)

lemma those_vilnius_utcoffset:
  "\<forall>t\<in>set ts. 1035680400 \<le> t \<and> t < 2153350800 \<Longrightarrow>
   those (map vilnius_utcoffset ts) = Some (map eu_rule_utcoffset ts)"
  by (induction ts) (simp_all add: vilnius_utcoffset_modelled)

lemma normalize_index_modelled:
  assumes "\<forall>t\<in>set utc. 1035680400 \<le> t \<and> t < 2153350800"
  shows "normalize_index utc = Inr (map (\<lambda>t. t + eu_rule_utcoffset t) utc)"
proof -
  have "map (\<lambda>(t, off). t + off) (zip utc (map eu_rule_utcoffset utc))
      = map (\<lambda>t. t + eu_rule_utcoffset t) utc"
    by (simp add: zip_map2 zip_same_conv_map)
  then show ?thesis
    using those_vilnius_utcoffset [OF assms] by (simp add: normalize_index_def)
qed

lemma round_trip_one:
  assumes "1041379200 \<le> t" and "t < 2145916800"
  shows "tz_localize_vilnius (t + eu_rule_utcoffset t) =
     (if in_repeated_hour t then Inl AmbiguousTime else Inr t)"
proof -
  have m: "vilnius_utcoffset t = Some (eu_rule_utcoffset t)"
    "vilnius_utcoffset (t + 3600) = Some (eu_rule_utcoffset (t + 3600))"
    "vilnius_utcoffset (t - 3600) = Some (eu_rule_utcoffset (t - 3600))"
    using assms by (simp_all add: vilnius_utcoffset_modelled)
  consider (summer) "eu_rule_utcoffset t = 10800" | (winter) "eu_rule_utcoffset t = 7200"
    using eu_rule_utcoffset_cases [of t] by blast
  then show ?thesis
  proof cases
    case summer
    define u where "u = t + 3600"
    have c: "[t + 10800 - 10800, t + 10800 - 7200] = [t, u]" by (simp add: u_def)
    have th: "those (map vilnius_utcoffset [t, u]) = Some [10800, eu_rule_utcoffset u]"
      using m(1,2) summer by (simp add: u_def)
    have p: "u + eu_rule_utcoffset u = t + 10800 \<longleftrightarrow> eu_rule_utcoffset u = 7200"
      by (auto simp: u_def)
    have r: "in_repeated_hour t \<longleftrightarrow> eu_rule_utcoffset u = 7200"
      using summer m(1,2) by (simp add: in_repeated_hour_def u_def)
    show ?thesis
      unfolding tz_localize_vilnius_def summer c r th
      by (simp add: p)
  next
    case winter
    define u where "u = t - 3600"
    have c: "[t + 7200 - 10800, t + 7200 - 7200] = [u, t]" by (simp add: u_def)
    have th: "those (map vilnius_utcoffset [u, t]) = Some [eu_rule_utcoffset u, 7200]"
      using m(1,3) winter by (simp add: u_def)
    have p: "u + eu_rule_utcoffset u = t + 7200 \<longleftrightarrow> eu_rule_utcoffset u = 10800"
      by (auto simp: u_def)
    have r: "in_repeated_hour t \<longleftrightarrow> eu_rule_utcoffset u = 10800"
      using winter m(1,3) by (simp add: in_repeated_hour_def u_def)
    show ?thesis
      unfolding tz_localize_vilnius_def winter c r th
      by (simp add: p)
  qed
qed

text \<open>
  Claim C6, as amended. For every batch of UTC time stamps from 2003-01-01 00:00:00 UTC
  (second 1041379200) to the end of 2037 (before second 2145916800), the years in
  which the zone follows its present rule whatever library reads the database, the
  normaliser gives an output index, and that index, converted back to UTC, gives back
  every time stamp that does not lie in the repeated hour at the end of summer time
  (the hour before and the hour after the clocks are set back); for a time stamp in
  the repeated hour the naive local time is ambiguous and the conversion back raises
  an error.
\<close>

theorem normalize_round_trip:
  assumes "\<forall>t\<in>set utc. 1041379200 \<le> t \<and> t < 2145916800"
  shows "\<exists>local_index. normalize_index utc = Inr local_index \<and>
     map tz_localize_vilnius local_index
       = map (\<lambda>t. if in_repeated_hour t then Inl AmbiguousTime else Inr t) utc"
proof -
  have "\<forall>t\<in>set utc. 1035680400 \<le> t \<and> t < 2153350800" using assms by auto
  then have "normalize_index utc = Inr (map (\<lambda>t. t + eu_rule_utcoffset t) utc)"
    by (rule normalize_index_modelled)
  moreover have "map tz_localize_vilnius (map (\<lambda>t. t + eu_rule_utcoffset t) utc)
       = map (\<lambda>t. if in_repeated_hour t then Inl AmbiguousTime else Inr t) utc"
    using assms by (simp add: round_trip_one)
  ultimately show ?thesis by blast
qed

theorem normalize_round_trip_witness:
  "\<exists>local_index. normalize_index [1704535200, 1720000000, 1729990800] = Inr local_index \<and>
     map tz_localize_vilnius local_index
       = [Inr 1704535200, Inr 1720000000, Inl AmbiguousTime]"
proof -
  have h: "\<forall>t\<in>set [1704535200, 1720000000, 1729990800].
      (1041379200::int) \<le> t \<and> t < 2145916800" by simp
  have "in_repeated_hour 1704535200 = False" "in_repeated_hour 1720000000 = False"
    "in_repeated_hour 1729990800 = True"
    by code_simp+
  then show ?thesis
    using normalize_round_trip [OF h] by simp
qed

text \<open>
  The claim as stated includes the time stamps at daylight-saving transitions. It is
  false on 2024-10-27: the instants 00:30 UTC and 01:30 UTC are both normalised to the
  naive local time 03:30 (second 1729999800 of the local time line), so nothing can
  give both back, and pandas refuses to convert that local time.
\<close>

theorem normalize_repeated_hour_collides:
  "normalize_index [1729989000] = Inr [1729999800] \<and>
   normalize_index [1729992600] = Inr [1729999800] \<and>
   tz_localize_vilnius 1729999800 = Inl AmbiguousTime"
proof -
  have "vilnius_utcoffset 1729989000 = Some 10800"
    and "vilnius_utcoffset 1729992600 = Some 7200"
    by code_simp+
  then show ?thesis
    by (simp add: normalize_index_def tz_localize_vilnius_def)
qed

section \<open>Properties of the statistics module\<close>

lemma daytime_mask_eq:
  "daytime_mask idx = map (\<lambda>t. 28800 \<le> time_of_day t \<and> time_of_day t < 72000) idx"
  by (simp add: daytime_mask_def day_start_def day_end_def zip_map_map zip_same_conv_map)

lemma nighttime_mask_eq:
  "nighttime_mask idx = map (\<lambda>t. \<not> (28800 \<le> time_of_day t \<and> time_of_day t < 72000)) idx"
  by (simp add: nighttime_mask_def day_start_def day_end_def zip_map_map zip_same_conv_map
      disj_commute)

text \<open>
  Claim C7. For every time stamp of the normalised table, the classifier marks it
  daytime exactly when its local time of day lies in the half-open interval from 08:00
  (28800 seconds) to 20:00 (72000 seconds), and nighttime exactly when it does not;
  08:00:00 of any day is daytime and not nighttime, 20:00:00 of any day is nighttime and
  not daytime.
\<close>

theorem day_night_half_open:
  "daytime_mask idx = map (\<lambda>t. 28800 \<le> time_of_day t \<and> time_of_day t < 72000) idx \<and>
   nighttime_mask idx = map Not (daytime_mask idx) \<and>
   daytime_mask [d * 86400 + 28800] = [True] \<and> nighttime_mask [d * 86400 + 28800] = [False] \<and>
   daytime_mask [d * 86400 + 72000] = [False] \<and> nighttime_mask [d * 86400 + 72000] = [True]"
  by (simp add: daytime_mask_eq nighttime_mask_eq time_of_day_def o_def)

subsection \<open>Rainy weekends\<close>

lemma py_in_iff: "py_in p s \<longleftrightarrow> (\<exists>u v. s = u @ p @ v)"
proof (induction s)
  case Nil
  then show ?case by auto
next
  case (Cons c s)
  show ?case
  proof
    assume "py_in p (c # s)"
    then consider "prefix p (c # s)" | "py_in p s" by auto
    then show "\<exists>u v. c # s = u @ p @ v"
    proof cases
      case 1
      then obtain v where "c # s = p @ v" by (auto simp: prefix_def)
      then have "c # s = [] @ p @ v" by simp
      then show ?thesis by blast
    next
      case 2
      then obtain u v where "s = u @ p @ v" using Cons.IH by blast
      then have "c # s = (c # u) @ p @ v" by simp
      then show ?thesis by blast
    qed
  next
    assume "\<exists>u v. c # s = u @ p @ v"
    then obtain u v where uv: "c # s = u @ p @ v" by blast
    show "py_in p (c # s)"
    proof (cases u)
      case Nil
      then have "prefix p (c # s)" using uv by (simp add: prefix_def)
      then show ?thesis by simp
    next
      case (Cons a u')
      then have "s = u' @ p @ v" using uv by simp
      then have "py_in p s" using Cons.IH by blast
      then show ?thesis by simp
    qed
  qed
qed

lemma rain_py_str: "py_in ''rain'' (py_str c) \<longleftrightarrow> (\<exists>s. c = Str s \<and> py_in ''rain'' s)"
  by (cases c) simp_all

lemma merge_rows_for_key_iff:
  "(k', x, y) \<in> set (merge_rows_for_key left right k) \<longleftrightarrow>
     k' = k \<and>
     ((k, x) \<in> set left \<and> (k, y) \<in> set right \<or>
      (k, x) \<in> set left \<and> k \<notin> fst ` set right \<and> y = NaN \<or>
      k \<notin> fst ` set left \<and> (k, y) \<in> set right \<and> x = NaN)"
proof -
  define xs where "xs = map snd (filter (\<lambda>(t, c). t = k) left)"
  define ys where "ys = map snd (filter (\<lambda>(t, c). t = k) right)"
  have xs: "x \<in> set xs \<longleftrightarrow> (k, x) \<in> set left" for x
    by (auto simp: xs_def image_iff)
  have ys: "y \<in> set ys \<longleftrightarrow> (k, y) \<in> set right" for y
    by (auto simp: ys_def image_iff)
  have xe: "xs = [] \<longleftrightarrow> k \<notin> fst ` set left"
  proof
    assume "xs = []"
    then have "\<And>x. (k, x) \<notin> set left" using xs by simp
    then show "k \<notin> fst ` set left" by force
  next
    assume "k \<notin> fst ` set left"
    then have "\<And>x. x \<notin> set xs" using xs by force
    then show "xs = []" by (cases xs) auto
  qed
  have ye: "ys = [] \<longleftrightarrow> k \<notin> fst ` set right"
  proof
    assume "ys = []"
    then have "\<And>y. (k, y) \<notin> set right" using ys by simp
    then show "k \<notin> fst ` set right" by force
  next
    assume "k \<notin> fst ` set right"
    then have "\<And>y. y \<notin> set ys" using ys by force
    then show "ys = []" by (cases ys) auto
  qed
  have inl: "(k, x) \<in> set left \<Longrightarrow> k \<in> fst ` set left" for x by force
  have inr: "(k, y) \<in> set right \<Longrightarrow> k \<in> fst ` set right" for y by force
  have rows: "merge_rows_for_key left right k =
      (if ys = [] then map (\<lambda>x. (k, x, NaN)) xs
       else if xs = [] then map (\<lambda>y. (k, NaN, y)) ys
       else concat (map (\<lambda>x. map (\<lambda>y. (k, x, y)) ys) xs))"
    by (simp add: merge_rows_for_key_def xs_def ys_def)
  show ?thesis
  proof (cases "ys = []")
    case True
    then show ?thesis
      unfolding rows using xs ye inr by (auto simp: image_iff)
  next
    case yne: False
    show ?thesis
    proof (cases "xs = []")
      case True
      then show ?thesis
        unfolding rows using yne ys xe inl by (auto simp: image_iff)
    next
      case False
      then show ?thesis
        unfolding rows using yne xs ys xe ye by (auto simp: image_iff)
    qed
  qed
qed

lemma pd_merge_outer_iff:
  "(k, x, y) \<in> set (pd_merge_outer left right) \<longleftrightarrow>
     (k, x) \<in> set left \<and> (k, y) \<in> set right \<or>
     (k, x) \<in> set left \<and> k \<notin> fst ` set right \<and> y = NaN \<or>
     k \<notin> fst ` set left \<and> (k, y) \<in> set right \<and> x = NaN"
proof -
  have "(k, x, y) \<in> set (pd_merge_outer left right) \<longleftrightarrow>
      (k \<in> fst ` set left \<or> k \<in> fst ` set right) \<and>
      (k, x, y) \<in> set (merge_rows_for_key left right k)"
    unfolding pd_merge_outer_def by (auto simp: merge_rows_for_key_iff)
  also have "\<dots> \<longleftrightarrow>
     (k, x) \<in> set left \<and> (k, y) \<in> set right \<or>
     (k, x) \<in> set left \<and> k \<notin> fst ` set right \<and> y = NaN \<or>
     k \<notin> fst ` set left \<and> (k, y) \<in> set right \<and> x = NaN"
    unfolding merge_rows_for_key_iff by force
  finally show ?thesis .
qed

lemma rainy_weekends_filter:
  "rainy_weekends h =
     filter (\<lambda>d. True \<in> set (map snd (filter (\<lambda>(k, b). date_of k = d) (rainy_combined h))))
       (sort (remdups (map (\<lambda>(k, b). date_of k) (rainy_combined h))))"
  by (simp add: rainy_weekends_def groupby_date_agg_list_def filter_map o_def)

lemma rainy_weekends_distinct: "distinct (rainy_weekends h)"
  unfolding rainy_weekends_filter by (intro distinct_filter) simp

lemma rainy_weekends_iff:
  "d \<in> set (rainy_weekends h) \<longleftrightarrow> (\<exists>k. (k, True) \<in> set (rainy_combined h) \<and> date_of k = d)"
  unfolding rainy_weekends_filter by (auto simp: image_iff) force+

lemma rainy_combined_iff:
  "(k, True) \<in> set (rainy_combined h) \<longleftrightarrow>
     (\<exists>x. (k, x) \<in> set (saturday_weather h) \<and> py_in ''rain'' (py_str x)) \<or>
     (\<exists>y. (k, y) \<in> set (sunday_weather h) \<and> py_in ''rain'' (py_str y))"
proof -
  let ?L = "saturday_weather h" and ?R = "sunday_weather h"
  have nan: "\<not> py_in ''rain'' (py_str NaN)" by simp
  have "(k, True) \<in> set (rainy_combined h) \<longleftrightarrow>
      (\<exists>x y. (k, x, y) \<in> set (pd_merge_outer ?L ?R) \<and>
             (py_in ''rain'' (py_str x) \<or> py_in ''rain'' (py_str y)))"
  proof
    assume "(k, True) \<in> set (rainy_combined h)"
    then obtain row where row: "row \<in> set (pd_merge_outer ?L ?R)"
      and eq: "(k, True) = (case row of (k, x, y) \<Rightarrow>
                 (k, py_in ''rain'' (py_str x) \<or> py_in ''rain'' (py_str y)))"
      unfolding rainy_combined_def by auto
    obtain k' x y where "row = (k', x, y)" by (cases row)
    with row eq show "\<exists>x y. (k, x, y) \<in> set (pd_merge_outer ?L ?R) \<and>
             (py_in ''rain'' (py_str x) \<or> py_in ''rain'' (py_str y))"
      by auto
  next
    assume "\<exists>x y. (k, x, y) \<in> set (pd_merge_outer ?L ?R) \<and>
             (py_in ''rain'' (py_str x) \<or> py_in ''rain'' (py_str y))"
    then obtain x y where "(k, x, y) \<in> set (pd_merge_outer ?L ?R)"
      and "py_in ''rain'' (py_str x) \<or> py_in ''rain'' (py_str y)" by blast
    then have "(case (k, x, y) of (k, x, y) \<Rightarrow>
                 (k, py_in ''rain'' (py_str x) \<or> py_in ''rain'' (py_str y)))
               \<in> set (rainy_combined h)"
      unfolding rainy_combined_def set_map by (intro imageI)
    then show "(k, True) \<in> set (rainy_combined h)"
      using \<open>py_in ''rain'' (py_str x) \<or> py_in ''rain'' (py_str y)\<close> by simp
  qed
  also have "\<dots> \<longleftrightarrow>
     (\<exists>x. (k, x) \<in> set ?L \<and> py_in ''rain'' (py_str x)) \<or>
     (\<exists>y. (k, y) \<in> set ?R \<and> py_in ''rain'' (py_str y))"
  proof
    assume "\<exists>x y. (k, x, y) \<in> set (pd_merge_outer ?L ?R) \<and>
             (py_in ''rain'' (py_str x) \<or> py_in ''rain'' (py_str y))"
    then obtain x y where m: "(k, x, y) \<in> set (pd_merge_outer ?L ?R)"
      and r: "py_in ''rain'' (py_str x) \<or> py_in ''rain'' (py_str y)" by blast
    from m [unfolded pd_merge_outer_iff] r nan show
     "(\<exists>x. (k, x) \<in> set ?L \<and> py_in ''rain'' (py_str x)) \<or>
      (\<exists>y. (k, y) \<in> set ?R \<and> py_in ''rain'' (py_str y))"
      by blast
  next
    assume "(\<exists>x. (k, x) \<in> set ?L \<and> py_in ''rain'' (py_str x)) \<or>
      (\<exists>y. (k, y) \<in> set ?R \<and> py_in ''rain'' (py_str y))"
    then show "\<exists>x y. (k, x, y) \<in> set (pd_merge_outer ?L ?R) \<and>
             (py_in ''rain'' (py_str x) \<or> py_in ''rain'' (py_str y))"
    proof
      assume "\<exists>x. (k, x) \<in> set ?L \<and> py_in ''rain'' (py_str x)"
      then obtain x where x: "(k, x) \<in> set ?L" "py_in ''rain'' (py_str x)" by blast
      show ?thesis
      proof (cases "k \<in> fst ` set ?R")
        case True
        then obtain y where "(k, y) \<in> set ?R" by force
        with x have "(k, x, y) \<in> set (pd_merge_outer ?L ?R)"
          unfolding pd_merge_outer_iff by blast
        with x(2) show ?thesis by blast
      next
        case False
        with x have "(k, x, NaN) \<in> set (pd_merge_outer ?L ?R)"
          unfolding pd_merge_outer_iff by blast
        with x(2) show ?thesis by blast
      qed
    next
      assume "\<exists>y. (k, y) \<in> set ?R \<and> py_in ''rain'' (py_str y)"
      then obtain y where y: "(k, y) \<in> set ?R" "py_in ''rain'' (py_str y)" by blast
      show ?thesis
      proof (cases "k \<in> fst ` set ?L")
        case True
        then obtain x where "(k, x) \<in> set ?L" by force
        with y have "(k, x, y) \<in> set (pd_merge_outer ?L ?R)"
          unfolding pd_merge_outer_iff by blast
        with y(2) show ?thesis by blast
      next
        case False
        with y have "(k, NaN, y) \<in> set (pd_merge_outer ?L ?R)"
          unfolding pd_merge_outer_iff by blast
        with y(2) show ?thesis by blast
      qed
    qed
  qed
  finally show ?thesis .
qed

lemma rain_substring:
  "py_in ''rain'' (py_str c) \<longleftrightarrow> (\<exists>s u v. c = Str s \<and> s = u @ ''rain'' @ v)"
proof (cases c)
  case (Str s)
  then show ?thesis using py_in_iff [of "''rain''" s] by simp
qed simp_all

lemma saturday_weather_iff:
  "(k, x) \<in> set (saturday_weather h) \<longleftrightarrow> (k, x) \<in> set h \<and> weekday k = 5"
  by (auto simp: saturday_weather_def)

lemma sunday_weather_iff:
  "(k, y) \<in> set (sunday_weather h) \<longleftrightarrow> (k + 86400, y) \<in> set h \<and> weekday (k + 86400) = 6"
  by (auto simp: sunday_weather_def image_iff)

lemma date_of_next_day: "date_of (k + 86400) = date_of k + 1"
  by (simp add: date_of_def)

lemma rainy_weekends_observation:
  "d \<in> set (rainy_weekends h) \<longleftrightarrow>
      (\<exists>(t, c)\<in>set h.
          (weekday t = 5 \<and> date_of t = d \<or> weekday t = 6 \<and> date_of t = d + 1) \<and>
          (\<exists>s u v. c = Str s \<and> s = u @ ''rain'' @ v))"
proof -
  have "d \<in> set (rainy_weekends h) \<longleftrightarrow>
      (\<exists>k. date_of k = d \<and>
         ((\<exists>x. (k, x) \<in> set h \<and> weekday k = 5 \<and> py_in ''rain'' (py_str x)) \<or>
          (\<exists>y. (k + 86400, y) \<in> set h \<and> weekday (k + 86400) = 6 \<and> py_in ''rain'' (py_str y))))"
    unfolding rainy_weekends_iff rainy_combined_iff saturday_weather_iff sunday_weather_iff
    by blast
  also have "\<dots> \<longleftrightarrow>
      (\<exists>(t, c)\<in>set h.
          (weekday t = 5 \<and> date_of t = d \<or> weekday t = 6 \<and> date_of t = d + 1) \<and>
          py_in ''rain'' (py_str c))"
  proof
    assume "\<exists>k. date_of k = d \<and>
         ((\<exists>x. (k, x) \<in> set h \<and> weekday k = 5 \<and> py_in ''rain'' (py_str x)) \<or>
          (\<exists>y. (k + 86400, y) \<in> set h \<and> weekday (k + 86400) = 6 \<and> py_in ''rain'' (py_str y)))"
    then obtain k where k: "date_of k = d" and
      "(\<exists>x. (k, x) \<in> set h \<and> weekday k = 5 \<and> py_in ''rain'' (py_str x)) \<or>
       (\<exists>y. (k + 86400, y) \<in> set h \<and> weekday (k + 86400) = 6 \<and> py_in ''rain'' (py_str y))"
      by blast
    then show "\<exists>(t, c)\<in>set h.
          (weekday t = 5 \<and> date_of t = d \<or> weekday t = 6 \<and> date_of t = d + 1) \<and>
          py_in ''rain'' (py_str c)"
      using date_of_next_day [of k] by force
  next
    assume "\<exists>(t, c)\<in>set h.
          (weekday t = 5 \<and> date_of t = d \<or> weekday t = 6 \<and> date_of t = d + 1) \<and>
          py_in ''rain'' (py_str c)"
    then obtain t c where tc: "(t, c) \<in> set h" "py_in ''rain'' (py_str c)"
      and w: "weekday t = 5 \<and> date_of t = d \<or> weekday t = 6 \<and> date_of t = d + 1"
      by blast
    from w show "\<exists>k. date_of k = d \<and>
         ((\<exists>x. (k, x) \<in> set h \<and> weekday k = 5 \<and> py_in ''rain'' (py_str x)) \<or>
          (\<exists>y. (k + 86400, y) \<in> set h \<and> weekday (k + 86400) = 6 \<and> py_in ''rain'' (py_str y)))"
    proof
      assume "weekday t = 5 \<and> date_of t = d"
      with tc show ?thesis by blast
    next
      assume s: "weekday t = 6 \<and> date_of t = d + 1"
      have "date_of (t - 86400) = d" using s date_of_next_day [of "t - 86400"] by simp
      moreover have "(t - 86400 + 86400, c) \<in> set h" "weekday (t - 86400 + 86400) = 6"
        using tc s by simp_all
      ultimately show ?thesis using tc(2) by blast
    qed
  qed
  also have "\<dots> \<longleftrightarrow>
      (\<exists>(t, c)\<in>set h.
          (weekday t = 5 \<and> date_of t = d \<or> weekday t = 6 \<and> date_of t = d + 1) \<and>
          (\<exists>s u v. c = Str s \<and> s = u @ ''rain'' @ v))"
    unfolding rain_substring ..
  finally show ?thesis .
qed

text \<open>
  Claim C8. A weekend, named by the date \<open>d\<close> of its Saturday, is among the counted
  dates \<open>rainy_weekends\<close> exactly when at least one observation of the table, taken
  on a Saturday of date \<open>d\<close> or on a Sunday of date \<open>d + 1\<close>, has a condition code that
  is a string containing \<^verbatim>\<open>rain\<close> (case-sensitive); one such observation on either day
  suffices, whatever the other day holds, also when it holds nothing. Each such weekend
  is counted once: the rainy-weekend count is the number of these dates.
\<close>

theorem rainy_weekend_either_day:
  "(d \<in> set (rainy_weekends h) \<longleftrightarrow>
      (\<exists>(t, c)\<in>set h.
          (weekday t = 5 \<and> date_of t = d \<or> weekday t = 6 \<and> date_of t = d + 1) \<and>
          (\<exists>s u v. c = Str s \<and> s = u @ ''rain'' @ v))) \<and>
   rainy_weekend_count h =
     card {d. \<exists>(t, c)\<in>set h.
          (weekday t = 5 \<and> date_of t = d \<or> weekday t = 6 \<and> date_of t = d + 1) \<and>
          (\<exists>s u v. c = Str s \<and> s = u @ ''rain'' @ v)}"
proof -
  have "set (rainy_weekends h) =
     {d. \<exists>(t, c)\<in>set h.
          (weekday t = 5 \<and> date_of t = d \<or> weekday t = 6 \<and> date_of t = d + 1) \<and>
          (\<exists>s u v. c = Str s \<and> s = u @ ''rain'' @ v)}"
    using rainy_weekends_observation [of _ h] by blast
  then have "rainy_weekend_count h =
     card {d. \<exists>(t, c)\<in>set h.
          (weekday t = 5 \<and> date_of t = d \<or> weekday t = 6 \<and> date_of t = d + 1) \<and>
          (\<exists>s u v. c = Str s \<and> s = u @ ''rain'' @ v)}"
    using distinct_card [OF rainy_weekends_distinct [of h]]
    by (simp add: rainy_weekend_count_def)
  then show ?thesis
    using rainy_weekends_observation [of d h] by blast
qed

theorem rainy_weekend_either_day_witness:
  "19728 \<in> set (rainy_weekends [(1704542400, Str ''light_rain''), (1704628800, Str ''clear'')]) \<and>
   rainy_weekend_count [(1704542400, Str ''light_rain''), (1704628800, Str ''clear'')] = 1 \<and>
   rainy_weekend_count [(1704542400, Str ''rain'')] = 1 \<and>
   rainy_weekend_count [(1704542400, Str ''Rain''), (1704628800, Str ''clear'')] = 0"
proof -
  let ?h = "[(1704542400, Str ''light_rain''), (1704628800, Str ''clear'')]"
  have "weekday 1704542400 = 5" and "date_of 1704542400 = 19728"
    by (simp_all add: weekday_def weekday_of_days_def date_of_def)
  moreover have "''light_rain'' = ''light_'' @ ''rain'' @ []" by simp
  ultimately have "\<exists>(t, c)\<in>set ?h.
          (weekday t = 5 \<and> date_of t = 19728 \<or> weekday t = 6 \<and> date_of t = 19728 + 1) \<and>
          (\<exists>s u v. c = Str s \<and> s = u @ ''rain'' @ v)"
    by (intro bexI [of _ "(1704542400, Str ''light_rain'')"]) (simp only: prod.case, blast, simp)
  then have "19728 \<in> set (rainy_weekends ?h)"
    using rainy_weekend_either_day [of 19728 ?h] by blast
  moreover have "rainy_weekend_count ?h = 1"
    and "rainy_weekend_count [(1704542400, Str ''rain'')] = 1"
    and "rainy_weekend_count [(1704542400, Str ''Rain''), (1704628800, Str ''clear'')] = 0"
    by code_simp+
  ultimately show ?thesis by simp
qed

section \<open>Properties of the data fetcher\<close>

lemma fetch_data_requested:
  "requested (snd (fetch_data get url io)) = requested io @ [url]"
  by (simp add: fetch_data_def Let_def split: http_outcome.splits option.splits)

lemma fetch_data_fails:
  "fetch_fails (get url) \<Longrightarrow>
   fst (fetch_data get url io) = Inr None \<and>
   length (printed (snd (fetch_data get url io))) = length (printed io) + 1"
  by (auto simp: fetch_data_def fetch_fails_def Let_def split: http_outcome.splits)

lemma fetch_days_aborts:
  assumes "current_date \<le> d" and "d < end_date"
    and "fetch_fails (get (historical_url @ ''/'' @ strftime d))"
  shows "\<exists>err io'. fetch_days get strftime historical_url current_date end_date weather_records io
            = (Inl err, io') \<and>
           length (requested io') \<le> length (requested io) + nat (d - current_date) + 1 \<and>
           (current_date = d \<longrightarrow> err = TypeError)"
  using assms
proof (induction get strftime historical_url current_date end_date weather_records io
    rule: fetch_days.induct)
  case (1 get strftime historical_url current_date end_date weather_records io)
  let ?url = "historical_url @ ''/'' @ strftime current_date"
  obtain res io1 where f: "fetch_data get ?url io = (res, io1)" by (cases "fetch_data get ?url io")
  have req: "length (requested io1) = length (requested io) + 1"
    using fetch_data_requested [of get ?url io] f by simp
  have lt: "current_date < end_date" using "1.prems" by simp
  show ?case
  proof (cases "current_date = d")
    case True
    then have "res = Inr None"
      using fetch_data_fails [of get ?url io] "1.prems"(3) f by simp
    then show ?thesis
      using f lt req True by (subst fetch_days.simps) simp
  next
    case False
    then have next_le: "current_date + 1 \<le> d" using "1.prems"(1) by simp
    have step: "nat (d - (current_date + 1)) + 1 = nat (d - current_date)"
      using next_le by simp
    show ?thesis
    proof (cases res)
      case (Inl err)
      then show ?thesis using f lt req False by (subst fetch_days.simps) simp
    next
      case (Inr data)
      show ?thesis
      proof (cases "py_getitem data ''observations''")
        case (Inl err)
        then show ?thesis using f lt req False Inr by (subst fetch_days.simps) simp
      next
        case obs: (Inr observations)
        show ?thesis
        proof (cases "py_iter observations")
          case (Inl err)
          then show ?thesis using f lt req False Inr obs by (subst fetch_days.simps) simp
        next
          case items: (Inr items)
          from "1.IH" [OF lt f [symmetric] Inr obs items next_le "1.prems"(2,3)]
          obtain err io' where
            r: "fetch_days get strftime historical_url (current_date + 1) end_date
                  (weather_records @ items) io1 = (Inl err, io')"
            and n: "length (requested io') \<le> length (requested io1) + nat (d - (current_date + 1)) + 1"
            by blast
          have "fetch_days get strftime historical_url current_date end_date weather_records io
              = (Inl err, io')"
            using f lt Inr obs items r by (subst fetch_days.simps) simp
          moreover have "length (requested io') \<le> length (requested io) + nat (d - current_date) + 1"
            using n req step by simp
          ultimately show ?thesis using False by blast
        qed
      qed
    qed
  qed
qed

text \<open>
  Claim C9 does not hold of the code. When the fetch of some day \<open>d\<close> of the range
  fails (the call raises, or the status is not 200), the failure is caught and printed,
  but \<^verbatim>\<open>__fetch_data\<close> then returns \<^verbatim>\<open>None\<close> and \<^verbatim>\<open>None["observations"]\<close> raises
  TypeError in \<^verbatim>\<open>load_historical_data\<close>: the load returns no records, it ends in an
  exception, and no day after the failing one is requested (at most \<open>d - start + 1\<close>
  requests are made). When the first day fails the exception is that TypeError.
\<close>

theorem load_historical_aborts_on_failed_fetch:
  assumes "start_date \<le> d" and "d < end_date"
    and "fetch_fails (get (historical_url @ ''/'' @ strftime d))"
  shows "\<exists>err io'. load_historical_records get strftime historical_url start_date end_date
            = (Inl err, io') \<and>
           length (requested io') \<le> nat (d - start_date) + 1 \<and>
           (start_date = d \<longrightarrow> err = TypeError)"
  using fetch_days_aborts [where get = get and strftime = strftime
      and historical_url = historical_url and weather_records = "[]"
      and io = "\<lparr>printed = [], requested = []\<rparr>", OF assms]
  by (simp add: load_historical_records_def)

theorem load_historical_aborts_on_failed_fetch_witness:
  "load_historical_records
      (\<lambda>url. if url = ''h/day0'' then Response 500 None
             else Response 200 (Some (JObj [(''observations'', JArr [JNull])])))
      (\<lambda>d. if d = 0 then ''day0'' else ''day1'') ''h'' 0 2
     = (Inl TypeError, \<lparr>printed = [Failed_to_fetch_data 500], requested = [''h/day0'']\<rparr>) \<and>
   (\<exists>err io'. load_historical_records
      (\<lambda>url. if url = ''h/day0'' then Response 200 (Some (JObj [(''observations'', JArr [JNull])]))
             else Raises ''timeout'')
      (\<lambda>d. if d = 0 then ''day0'' else ''day1'') ''h'' 0 2 = (Inl err, io'))"
proof -
  let ?get = "\<lambda>url. if url = ''h/day0'' then Response 200 (Some (JObj [(''observations'', JArr [JNull])]))
             else Raises ''timeout''"
  let ?fmt = "\<lambda>d::int. if d = 0 then ''day0'' else ''day1''"
  have a: "(0::int) \<le> 1" and b: "(1::int) < 2" by simp_all
  have c: "fetch_fails (?get (''h'' @ ''/'' @ ?fmt 1))" by (simp add: fetch_fails_def)
  from load_historical_aborts_on_failed_fetch [where get = ?get and strftime = ?fmt and historical_url = "''h''", OF a b c]
  have "\<exists>err io'. load_historical_records ?get ?fmt ''h'' 0 2 = (Inl err, io')"
    by blast
  moreover have "load_historical_records
      (\<lambda>url. if url = ''h/day0'' then Response 500 None
             else Response 200 (Some (JObj [(''observations'', JArr [JNull])])))
      (\<lambda>d. if d = 0 then ''day0'' else ''day1'') ''h'' 0 2
     = (Inl TypeError, \<lparr>printed = [Failed_to_fetch_data 500], requested = [''h/day0'']\<rparr>)"
    by (simp add: load_historical_records_def fetch_days.simps fetch_data_def)
  ultimately show ?thesis by simp
qed

end
